theory Spec2Isabelle
  imports Complex_Main "HOL-Library.Multiset" "HOL-Library.List_Lexorder" "HOL-Library.Char_ord"
begin

section \<open>Data model of \<^verbatim>\<open>pkg/pgmodel/querier/series_set.go\<close>\<close>

text \<open>
  Go's \<^verbatim>\<open>int64\<close> label identifiers and timestamps are only compared (with \<open>0\<close>, with each
  other) and used as map keys; no arithmetic is done on them, so they are unbounded
  integers here. The cursors \<^verbatim>\<open>rowIdx\<close> and \<^verbatim>\<open>cur\<close> are Go \<^verbatim>\<open>int\<close>s that start at \<open>-1\<close> and change
  only by \<^verbatim>\<open>+= 1\<close> once per call or loop round; they are integers here as well (wrapping a
  64-bit cursor takes \<open>2 ^ 63\<close> calls).
\<close>

type_synonym int64 = int

text \<open>\<^verbatim>\<open>labels.Label\<close> of the Prometheus library; its zero value has two empty strings.\<close>

record Label =
  Name :: string
  Value :: string

text \<open>\<^verbatim>\<open>pgtype.Status\<close>, \<^verbatim>\<open>pgtype.Float8\<close> and \<^verbatim>\<open>pgtype.Float8Array\<close> (the fields the code reads).
  The sample type \<open>'f\<close> stands for \<^verbatim>\<open>float64\<close>: samples are carried, never computed with.\<close>

datatype Status = Undefined | Null | Present

record 'f Float8 =
  Float :: 'f
  Status :: Status

record 'f Float8Array =
  Elements :: "'f Float8 list"

text \<open>Modelled from the spec: the interface \<^verbatim>\<open>TimestampSeries\<close> is declared outside the given
  sources. It is "an ordered sequence of millisecond timestamps, queryable by position and
  length"; \<^verbatim>\<open>At(i)\<close> returns the timestamp and whether it could be read, \<^verbatim>\<open>Len()\<close> the
  length.\<close>

type_synonym TimestampSeries = "(int64 \<times> bool) list"

text \<open>Go's \<^verbatim>\<open>error\<close> values the code creates or passes on: \<^verbatim>\<open>errors.ErrInvalidRowData\<close>,
  \<^verbatim>\<open>fmt.Errorf("Missing label for id %v", id)\<close>, an error attached to a row upstream, and
  \<^verbatim>\<open>fmt.Errorf("Error retrieving series set: %w", err)\<close>.\<close>

datatype error =
    ErrInvalidRowData
  | ErrMissingLabel int64
  | ErrUpstream string
  | ErrRetrievingSeriesSet error

text \<open>A run-time panic of Go: indexing a slice out of its range.\<close>

datatype panic = IndexOutOfRange

definition index :: "'a list \<Rightarrow> int \<Rightarrow> panic + 'a" where
  "index xs i = (if 0 \<le> i \<and> i < int (length xs) then Inr (xs ! nat i) else Inl IndexOutOfRange)"

definition TimestampSeries_Len :: "TimestampSeries \<Rightarrow> int" where
  "TimestampSeries_Len ts = int (length ts)"

definition TimestampSeries_At :: "TimestampSeries \<Rightarrow> int \<Rightarrow> panic + (int64 \<times> bool)" where
  "TimestampSeries_At ts i = index ts i"

text \<open>Modelled from the spec: the struct \<^verbatim>\<open>timescaleRow\<close> is declared outside the given
  sources. The fields are the ones \<^verbatim>\<open>series_set.go\<close> reads (\<^verbatim>\<open>labelIds\<close>, \<^verbatim>\<open>times\<close>, \<^verbatim>\<open>values\<close>,
  \<^verbatim>\<open>err\<close>, \<^verbatim>\<open>metricOverride\<close>); \<open>additionalLabels\<close> is what \<^verbatim>\<open>GetAdditionalLabels()\<close> returns
  ("labels appended after resolution and override").\<close>

record 'f timescaleRow =
  labelIds :: "int64 list"
  row_times :: TimestampSeries
  row_values :: "'f Float8Array"
  row_err :: "error option"
  metricOverride :: string
  additionalLabels :: "Label list"

text \<open>\<^verbatim>\<open>pgxSeriesSet\<close>. The field \<^verbatim>\<open>querier\<close> is stored by \<^verbatim>\<open>buildSeriesSet\<close> and read by no
  method, so it is left out.\<close>

record 'f pgxSeriesSet =
  rowIdx :: int
  rows :: "'f timescaleRow list"
  labelIDMap :: "int64 \<rightharpoonup> Label"
  err :: "error option"

record 'f pgxSeries =
  labels :: "Label list"
  ps_times :: TimestampSeries
  ps_values :: "'f Float8Array"

record 'f pgxSeriesIterator =
  cur :: int
  totalSamples :: int
  it_times :: TimestampSeries
  it_values :: "'f Float8Array"

text \<open>Modelled from the spec: the constant \<^verbatim>\<open>model.MetricNameLabelName\<close> is defined outside
  the given sources; the spec's metric-name label is \<^verbatim>\<open>__name__\<close>.\<close>

definition MetricNameLabelName :: string where
  "MetricNameLabelName = ''__name__''"

section \<open>The series-set cursor\<close>

text \<open>What \<^verbatim>\<open>buildSeriesSet\<close> returns: the \<^verbatim>\<open>errorSeriesSet\<close> of a failed resolution, or a
  \<^verbatim>\<open>pgxSeriesSet\<close>.\<close>

datatype 'f SeriesSet = ErrorSeriesSet error | PgxSeriesSet "'f pgxSeriesSet"

text \<open>Modelled from the spec: \<^verbatim>\<open>initializeLabeIDMap\<close> is defined outside the given sources.
  "For every row and every non-zero label identifier in that row, insert a placeholder key
  into the mapping."\<close>

definition initializeLabeIDMap :: "(int64 \<rightharpoonup> Label) \<Rightarrow> 'f timescaleRow list \<Rightarrow> (int64 \<rightharpoonup> Label)" where
  "initializeLabeIDMap m rs =
     fold (\<lambda>r m1. fold (\<lambda>i m2. if i = 0 then m2 else m2(i \<mapsto> \<lparr>Name = [], Value = []\<rparr>)) (labelIds r) m1) rs m"

text \<open>\<^verbatim>\<open>buildSeriesSet\<close>. The resolver \<^verbatim>\<open>querier.LabelsForIdMap\<close> fills the map in place and
  may fail; here it is a parameter that returns its error and the map as it left it.\<close>

definition buildSeriesSet ::
  "'f timescaleRow list \<Rightarrow> ((int64 \<rightharpoonup> Label) \<Rightarrow> error option \<times> (int64 \<rightharpoonup> Label)) \<Rightarrow> 'f SeriesSet" where
  "buildSeriesSet rs LabelsForIdMap =
     (case LabelsForIdMap (initializeLabeIDMap Map.empty rs) of
        (Some e, _) \<Rightarrow> ErrorSeriesSet e
      | (None, m) \<Rightarrow> PgxSeriesSet \<lparr>rowIdx = - 1, rows = rs, labelIDMap = m, err = None\<rparr>)"

text \<open>\<^verbatim>\<open>pgxSeriesSet.Next\<close>: the cursor it leaves and the boolean it returns.\<close>

definition pgxSeriesSet_Next :: "'f pgxSeriesSet \<Rightarrow> panic + (bool \<times> 'f pgxSeriesSet)" where
  "pgxSeriesSet_Next p =
     (if rowIdx p \<ge> int (length (rows p)) then Inr (False, p)
      else let p1 = p\<lparr>rowIdx := rowIdx p + 1\<rparr> in
        if rowIdx p1 \<ge> int (length (rows p1)) then Inr (False, p1)
        else if err p1 = None then
          (case index (rows p1) (rowIdx p1) of
             Inl e \<Rightarrow> Inl e
           | Inr row \<Rightarrow> Inr (True, p1\<lparr>err := row_err row\<rparr>))
        else Inr (True, p1))"

text \<open>The first loop of \<^verbatim>\<open>At\<close> (lines 98 to 112): walk \<^verbatim>\<open>row.labelIds\<close>, skip \<open>0\<close>, look each
  identifier up, stop with the error at the first one that is missing or resolves to the
  zero label, otherwise append the label to \<^verbatim>\<open>lls\<close>.\<close>

fun At_resolveLabels :: "(int64 \<rightharpoonup> Label) \<Rightarrow> int64 list \<Rightarrow> Label list \<Rightarrow> error + Label list" where
  "At_resolveLabels m [] lls = Inr lls"
| "At_resolveLabels m (i # ids) lls =
     (if i = 0 then At_resolveLabels m ids lls
      else (case m i of
              None \<Rightarrow> Inl (ErrMissingLabel i)
            | Some label \<Rightarrow>
                if label = \<lparr>Name = [], Value = []\<rparr> then Inl (ErrMissingLabel i)
                else At_resolveLabels m ids (lls @ [label])))"

text \<open>The second loop of \<^verbatim>\<open>At\<close> (lines 115 to 120): overwrite the value of the first label
  named \<^verbatim>\<open>MetricNameLabelName\<close> and \<^verbatim>\<open>break\<close>.\<close>

fun At_overrideMetric :: "string \<Rightarrow> Label list \<Rightarrow> Label list" where
  "At_overrideMetric v [] = []"
| "At_overrideMetric v (l # lls) =
     (if Name l = MetricNameLabelName then l\<lparr>Value := v\<rparr> # lls
      else l # At_overrideMetric v lls)"

text \<open>\<^verbatim>\<open>pgxSeriesSet.At\<close>. The result is the series (\<open>None\<close> for Go's \<^verbatim>\<open>nil\<close>) and the cursor as
  the call leaves it. \<^verbatim>\<open>sort.Sort\<close> of Go's library is the parameter \<open>srt\<close>: it sorts by
  \<^verbatim>\<open>labels.Labels.Less\<close>, which compares names, and is not stable.\<close>

definition pgxSeriesSet_At ::
  "(Label list \<Rightarrow> Label list) \<Rightarrow> 'f pgxSeriesSet \<Rightarrow> panic + ('f pgxSeries option \<times> 'f pgxSeriesSet)" where
  "pgxSeriesSet_At srt p =
     (if rowIdx p \<ge> int (length (rows p)) then Inr (None, p)
      else (case index (rows p) (rowIdx p) of
        Inl e \<Rightarrow> Inl e
      | Inr row \<Rightarrow>
          if row_err row \<noteq> None then Inr (None, p)
          else if TimestampSeries_Len (row_times row) \<noteq> int (length (Elements (row_values row)))
          then Inr (None, p\<lparr>err := Some ErrInvalidRowData\<rparr>)
          else let ps = \<lparr>labels = [], ps_times = row_times row, ps_values = row_values row\<rparr> in
            if length (labelIds row) = 0 then Inr (Some ps, p)
            else (case At_resolveLabels (labelIDMap p) (labelIds row) [] of
              Inl e \<Rightarrow> Inr (None, p\<lparr>err := Some e\<rparr>)
            | Inr lls \<Rightarrow>
                let lls1 = (if metricOverride row \<noteq> [] then At_overrideMetric (metricOverride row) lls else lls);
                    lls2 = lls1 @ additionalLabels row
                in Inr (Some (ps\<lparr>labels := srt lls2\<rparr>), p))))"

text \<open>\<^verbatim>\<open>pgxSeriesSet.Err\<close>.\<close>

definition pgxSeriesSet_Err :: "'f pgxSeriesSet \<Rightarrow> error option" where
  "pgxSeriesSet_Err p = (case err p of Some e \<Rightarrow> Some (ErrRetrievingSeriesSet e) | None \<Rightarrow> None)"

text \<open>\<^verbatim>\<open>pgxSeriesSet.Close\<close>: \<^verbatim>\<open>row.Close()\<close> on every element of \<^verbatim>\<open>p.rows\<close> in turn. The rows'
  \<^verbatim>\<open>Close\<close> is defined outside the given sources; it is the parameter \<open>rowClose\<close>, acting on
  whatever state \<open>'w\<close> the rows' resources live in. The cursor itself is not changed.\<close>

definition pgxSeriesSet_Close :: "('f timescaleRow \<Rightarrow> 'w \<Rightarrow> 'w) \<Rightarrow> 'f pgxSeriesSet \<Rightarrow> 'w \<Rightarrow> 'w" where
  "pgxSeriesSet_Close rowClose p w = fold rowClose (rows p) w"

text \<open>A \<open>rowClose\<close> that records each release, in the order the calls are made.\<close>

definition recordRelease :: "'f timescaleRow \<Rightarrow> 'f timescaleRow list \<Rightarrow> 'f timescaleRow list" where
  "recordRelease r released = released @ [r]"

section \<open>The series and its sample iterator\<close>

definition pgxSeries_Labels :: "'f pgxSeries \<Rightarrow> Label list" where
  "pgxSeries_Labels s = labels s"

definition newIterator :: "TimestampSeries \<Rightarrow> 'f Float8Array \<Rightarrow> 'f pgxSeriesIterator" where
  "newIterator ts vs = \<lparr>cur = - 1, totalSamples = TimestampSeries_Len ts, it_times = ts, it_values = vs\<rparr>"

definition pgxSeries_Iterator :: "'f pgxSeries \<Rightarrow> 'f pgxSeriesIterator" where
  "pgxSeries_Iterator s = newIterator (ps_times s) (ps_values s)"

definition getTs :: "'f pgxSeriesIterator \<Rightarrow> panic + int64" where
  "getTs p = (case TimestampSeries_At (it_times p) (cur p) of Inl e \<Rightarrow> Inl e | Inr (ts, _) \<Rightarrow> Inr ts)"

definition getVal :: "'f pgxSeriesIterator \<Rightarrow> panic + 'f" where
  "getVal p = (case index (Elements (it_values p)) (cur p) of Inl e \<Rightarrow> Inl e | Inr e \<Rightarrow> Inr (Float e))"

text \<open>\<^verbatim>\<open>pgxSeriesIterator.Next\<close>. The loop has no bound of its own, so not returning is the
  value \<open>None\<close>; a panic is \<open>Some (Inl _)\<close>. Go evaluates \<^verbatim>\<open>&&\<close> left to right and reads
  \<^verbatim>\<open>p.values.Elements[p.cur]\<close> only when the timestamp could be read.\<close>

partial_function (option) pgxSeriesIterator_Next ::
  "'f pgxSeriesIterator \<Rightarrow> (panic + (bool \<times> 'f pgxSeriesIterator)) option" where
  "pgxSeriesIterator_Next p =
     (let p1 = p\<lparr>cur := cur p + 1\<rparr> in
      if cur p1 \<ge> totalSamples p1 then Some (Inr (False, p1))
      else (case TimestampSeries_At (it_times p1) (cur p1) of
        Inl e \<Rightarrow> Some (Inl e)
      | Inr (ts, ok) \<Rightarrow>
          if ok then
            (case index (Elements (it_values p1)) (cur p1) of
               Inl e \<Rightarrow> Some (Inl e)
             | Inr v \<Rightarrow> if Status v = Present then Some (Inr (True, p1)) else pgxSeriesIterator_Next p1)
          else pgxSeriesIterator_Next p1))"

text \<open>The loop of \<^verbatim>\<open>pgxSeriesIterator.Seek\<close> (lines 185 to 191), and \<^verbatim>\<open>Seek\<close> itself, which sets
  \<^verbatim>\<open>p.cur = -1\<close> first.\<close>

partial_function (option) Seek_loop ::
  "int64 \<Rightarrow> 'f pgxSeriesIterator \<Rightarrow> (panic + (bool \<times> 'f pgxSeriesIterator)) option" where
  "Seek_loop t p =
     (case pgxSeriesIterator_Next p of
        None \<Rightarrow> None
      | Some (Inl e) \<Rightarrow> Some (Inl e)
      | Some (Inr (b, p1)) \<Rightarrow>
          if b then
            (case getTs p1 of
               Inl e \<Rightarrow> Some (Inl e)
             | Inr ts \<Rightarrow> if ts \<ge> t then Some (Inr (True, p1)) else Seek_loop t p1)
          else Some (Inr (False, p1)))"

definition pgxSeriesIterator_Seek ::
  "'f pgxSeriesIterator \<Rightarrow> int64 \<Rightarrow> (panic + (bool \<times> 'f pgxSeriesIterator)) option" where
  "pgxSeriesIterator_Seek p t = Seek_loop t (p\<lparr>cur := - 1\<rparr>)"

text \<open>\<^verbatim>\<open>pgxSeriesIterator.At\<close>.\<close>

definition pgxSeriesIterator_At :: "('f::zero) pgxSeriesIterator \<Rightarrow> panic + (int64 \<times> 'f)" where
  "pgxSeriesIterator_At p =
     (if cur p \<ge> totalSamples p \<or> cur p < 0 then Inr (0, 0)
      else (case getTs p of
        Inl e \<Rightarrow> Inl e
      | Inr t \<Rightarrow> (case getVal p of Inl e \<Rightarrow> Inl e | Inr v \<Rightarrow> Inr (t, v))))"

text \<open>\<^verbatim>\<open>pgxSeriesIterator.Err\<close>.\<close>

definition pgxSeriesIterator_Err :: "'f pgxSeriesIterator \<Rightarrow> error option" where
  "pgxSeriesIterator_Err p = None"

section \<open>Predicates of the statements\<close>

text \<open>Position \<open>i\<close> holds a present sample: its timestamp can be read and its value is not
  absent. This is the condition under which the loop of \<^verbatim>\<open>Next\<close> returns true at \<open>i\<close>.\<close>

definition presentSample :: "'f pgxSeriesIterator \<Rightarrow> nat \<Rightarrow> bool" where
  "presentSample p i = (snd (it_times p ! i) \<and> Status (Elements (it_values p) ! i) = Present)"

text \<open>What \<^verbatim>\<open>newIterator\<close> sets up for a series made by \<^verbatim>\<open>pgxSeriesSet.At\<close>, which has checked
  the two lengths: \<^verbatim>\<open>totalSamples\<close> is the length of \<^verbatim>\<open>times\<close>, and \<^verbatim>\<open>values\<close> is as long.\<close>

definition wellFormed :: "'f pgxSeriesIterator \<Rightarrow> bool" where
  "wellFormed p = (totalSamples p = int (length (it_times p)) \<and>
                   length (Elements (it_values p)) = length (it_times p))"

section \<open>Sample data\<close>

text \<open>The spec's sample iterator: times \<open>[0, 1, 2, 3]\<close>, values \<open>[1.0, null, 3.0, null]\<close>;
  \<open>ex_iterator c\<close> is the iterator over them with its cursor at \<open>c\<close>.\<close>

definition ex_times :: TimestampSeries where
  "ex_times = [(0, True), (1, True), (2, True), (3, True)]"

definition ex_values :: "real Float8Array" where
  "ex_values = \<lparr>Elements = [\<lparr>Float = 1, Status = Present\<rparr>, \<lparr>Float = 0, Status = Null\<rparr>,
                             \<lparr>Float = 3, Status = Present\<rparr>, \<lparr>Float = 0, Status = Null\<rparr>]\<rparr>"

definition ex_iterator :: "int \<Rightarrow> real pgxSeriesIterator" where
  "ex_iterator c = \<lparr>cur = c, totalSamples = 4, it_times = ex_times, it_values = ex_values\<rparr>"

text \<open>A resolved label mapping and rows over it: a row that failed upstream (and whose
  columns differ in length), a row whose columns differ in length, a row that refers to the
  unknown identifier \<open>7\<close>, a row with a metric override and two labels named \<^verbatim>\<open>__name__\<close>, a row
  with an additional label, and a row with an additional label and no label identifiers.\<close>

definition ex_labelIDMap :: "int64 \<rightharpoonup> Label" where
  "ex_labelIDMap = [1 \<mapsto> \<lparr>Name = ''__name__'', Value = ''foo''\<rparr>,
                    2 \<mapsto> \<lparr>Name = ''job'', Value = ''a''\<rparr>,
                    3 \<mapsto> \<lparr>Name = ''__name__'', Value = ''baz''\<rparr>]"

definition ex_failedRow :: "real timescaleRow" where
  "ex_failedRow = \<lparr>labelIds = [], row_times = [(0, True)], row_values = \<lparr>Elements = []\<rparr>,
     row_err = Some (ErrUpstream ''scan failed''), metricOverride = [], additionalLabels = []\<rparr>"

definition ex_shortRow :: "real timescaleRow" where
  "ex_shortRow = \<lparr>labelIds = [], row_times = [(0, True)], row_values = \<lparr>Elements = []\<rparr>,
     row_err = None, metricOverride = [], additionalLabels = []\<rparr>"

definition ex_unresolvedRow :: "real timescaleRow" where
  "ex_unresolvedRow = \<lparr>labelIds = [1, 0, 7, 2], row_times = [], row_values = \<lparr>Elements = []\<rparr>,
     row_err = None, metricOverride = [], additionalLabels = []\<rparr>"

definition ex_overrideRow :: "real timescaleRow" where
  "ex_overrideRow = \<lparr>labelIds = [2, 0, 1, 3], row_times = [], row_values = \<lparr>Elements = []\<rparr>,
     row_err = None, metricOverride = ''bar'', additionalLabels = []\<rparr>"

definition ex_overrideResolved :: "Label list" where
  "ex_overrideResolved = [\<lparr>Name = ''job'', Value = ''a''\<rparr>, \<lparr>Name = ''__name__'', Value = ''foo''\<rparr>,
                          \<lparr>Name = ''__name__'', Value = ''baz''\<rparr>]"

definition ex_extraRow :: "real timescaleRow" where
  "ex_extraRow = \<lparr>labelIds = [2, 1], row_times = [], row_values = \<lparr>Elements = []\<rparr>,
     row_err = None, metricOverride = [], additionalLabels = [\<lparr>Name = ''column'', Value = ''max''\<rparr>]\<rparr>"

definition ex_extraResolved :: "Label list" where
  "ex_extraResolved = [\<lparr>Name = ''job'', Value = ''a''\<rparr>, \<lparr>Name = ''__name__'', Value = ''foo''\<rparr>]"

definition ex_bareRow :: "real timescaleRow" where
  "ex_bareRow = \<lparr>labelIds = [], row_times = [], row_values = \<lparr>Elements = []\<rparr>,
     row_err = None, metricOverride = [], additionalLabels = [\<lparr>Name = ''column'', Value = ''max''\<rparr>]\<rparr>"

definition ex_cursor :: "int \<Rightarrow> real timescaleRow list \<Rightarrow> error option \<Rightarrow> real pgxSeriesSet" where
  "ex_cursor k rs e = \<lparr>rowIdx = k, rows = rs, labelIDMap = ex_labelIDMap, err = e\<rparr>"

section \<open>Closing the cursor\<close>

lemma fold_recordRelease: "fold recordRelease rs released = released @ rs"
  by (induction rs arbitrary: released) (simp_all add: recordRelease_def)

text \<open>
  Claim C9. One call of \<^verbatim>\<open>Close()\<close> calls the rows' release once per row, in row order, and
  the cursor position plays no part: started from any log of earlier releases and from any
  position \<open>k\<close> (rows visited or not), the log afterwards is the old one followed by exactly
  the cursor's rows.
\<close>

theorem pgxSeriesSet_Close_releases_rows_in_order:
  "pgxSeriesSet_Close recordRelease (p\<lparr>rowIdx := k\<rparr>) released = released @ rows p"
  by (simp add: pgxSeriesSet_Close_def fold_recordRelease)

section \<open>Exhaustion and the latched error\<close>

text \<open>Once the cursor has run past the last row, \<^verbatim>\<open>Next\<close> returns false and changes nothing,
  and \<^verbatim>\<open>At\<close> returns \<^verbatim>\<open>nil\<close>; a \<^verbatim>\<open>Next\<close> that returns false leaves the cursor there.\<close>

lemma pgxSeriesSet_exhausted_terminal:
  "int (length (rows p)) \<le> rowIdx p \<Longrightarrow>
   pgxSeriesSet_Next p = Inr (False, p) \<and> pgxSeriesSet_At srt p = Inr (None, p)"
  by (simp add: pgxSeriesSet_Next_def pgxSeriesSet_At_def)

lemma pgxSeriesSet_Next_False_exhausted:
  "pgxSeriesSet_Next p = Inr (False, p') \<Longrightarrow> int (length (rows p')) \<le> rowIdx p'"
  by (auto simp: pgxSeriesSet_Next_def Let_def split: if_splits sum.splits)

text \<open>\<^verbatim>\<open>Next\<close> keeps an error that is already latched, and \<^verbatim>\<open>At\<close> never clears one (it may
  put another in its place).\<close>

lemma pgxSeriesSet_Next_keeps_err:
  "err p = Some e \<Longrightarrow> pgxSeriesSet_Next p = Inr (b, p') \<Longrightarrow> err p' = Some e"
  by (auto simp: pgxSeriesSet_Next_def Let_def split: if_splits)

lemma pgxSeriesSet_At_never_clears_err:
  "err p = Some e \<Longrightarrow> pgxSeriesSet_At srt p = Inr (r, p') \<Longrightarrow> err p' \<noteq> None"
  by (auto simp: pgxSeriesSet_At_def Let_def split: if_splits sum.splits)

lemma pgxSeriesSet_Next_True_positioned:
  "- 1 \<le> rowIdx p0 \<Longrightarrow> pgxSeriesSet_Next p0 = Inr (True, p) \<Longrightarrow>
   index (rows p) (rowIdx p) = Inr (rows p ! nat (rowIdx p))"
  by (auto simp: pgxSeriesSet_Next_def Let_def index_def split: if_splits)

text \<open>
  Claim C2. \<^verbatim>\<open>At()\<close> on a cursor that \<^verbatim>\<open>buildSeriesSet\<close> has just returned, before any \<^verbatim>\<open>Next()\<close>:
  \<^verbatim>\<open>rowIdx\<close> is \<open>-1\<close>, the guard \<^verbatim>\<open>p.rowIdx >= len(p.rows)\<close> does not hold, and \<^verbatim>\<open>p.rows[p.rowIdx]\<close>
  indexes the slice at \<open>-1\<close>: the call panics, whatever the rows, the resolved labels and the
  sort are. (The claim says it yields nothing and never panics.)
\<close>

theorem pgxSeriesSet_At_before_Next_panics:
  "buildSeriesSet rs (\<lambda>m. (None, resolve m)) =
     PgxSeriesSet \<lparr>rowIdx = - 1, rows = rs, labelIDMap = resolve (initializeLabeIDMap Map.empty rs), err = None\<rparr>
   \<and> pgxSeriesSet_At srt \<lparr>rowIdx = - 1, rows = rs, labelIDMap = m, err = None\<rparr> = Inl IndexOutOfRange"
  by (simp add: buildSeriesSet_def pgxSeriesSet_At_def index_def)

text \<open>
  Claim C1. A cursor over a row that failed upstream and a row whose columns differ in
  length: the first \<^verbatim>\<open>Next()\<close> latches the upstream error, the second \<^verbatim>\<open>Next()\<close> keeps it, and
  \<^verbatim>\<open>At()\<close> on the second row then overwrites it with the invalid-row-data error, which is what
  \<^verbatim>\<open>Err()\<close> reports from then on. (The claim says the first error is never replaced.)
\<close>

theorem pgxSeriesSet_At_replaces_latched_error:
  "pgxSeriesSet_Next (ex_cursor (- 1) [ex_failedRow, ex_shortRow] None) =
     Inr (True, ex_cursor 0 [ex_failedRow, ex_shortRow] (Some (ErrUpstream ''scan failed'')))
   \<and> pgxSeriesSet_Next (ex_cursor 0 [ex_failedRow, ex_shortRow] (Some (ErrUpstream ''scan failed''))) =
     Inr (True, ex_cursor 1 [ex_failedRow, ex_shortRow] (Some (ErrUpstream ''scan failed'')))
   \<and> pgxSeriesSet_At srt (ex_cursor 1 [ex_failedRow, ex_shortRow] (Some (ErrUpstream ''scan failed''))) =
     Inr (None, ex_cursor 1 [ex_failedRow, ex_shortRow] (Some ErrInvalidRowData))
   \<and> pgxSeriesSet_Err (ex_cursor 1 [ex_failedRow, ex_shortRow] (Some ErrInvalidRowData)) =
     Some (ErrRetrievingSeriesSet ErrInvalidRowData)"
  by (simp add: pgxSeriesSet_Next_def pgxSeriesSet_At_def pgxSeriesSet_Err_def index_def
      TimestampSeries_Len_def ex_cursor_def ex_failedRow_def ex_shortRow_def)

section \<open>Rows whose columns differ in length\<close>

text \<open>
  Claim C3, as amended. For every row that a successful \<^verbatim>\<open>Next()\<close> has positioned the cursor
  on, that carries no error of its own, and whose timestamp sequence and value sequence
  differ in length: \<^verbatim>\<open>At()\<close> returns nothing, and \<^verbatim>\<open>Err()\<close> on the cursor it leaves reports the
  invalid-row-data error in the series-set-retrieval wrapping.
\<close>

theorem pgxSeriesSet_At_invalid_row_data:
  assumes "- 1 \<le> rowIdx p0"
    and "pgxSeriesSet_Next p0 = Inr (True, p)"
    and "row = rows p ! nat (rowIdx p)"
    and "row_err row = None"
    and "length (row_times row) \<noteq> length (Elements (row_values row))"
  shows "pgxSeriesSet_At srt p = Inr (None, p\<lparr>err := Some ErrInvalidRowData\<rparr>) \<and>
         pgxSeriesSet_Err (p\<lparr>err := Some ErrInvalidRowData\<rparr>) = Some (ErrRetrievingSeriesSet ErrInvalidRowData)"
proof -
  from assms(1,2) have pos: "index (rows p) (rowIdx p) = Inr (rows p ! nat (rowIdx p))"
    by (rule pgxSeriesSet_Next_True_positioned)
  then have "rowIdx p < int (length (rows p))"
    by (simp add: index_def split: if_splits)
  with pos assms(3-5) show ?thesis
    by (simp add: pgxSeriesSet_At_def pgxSeriesSet_Err_def TimestampSeries_Len_def)
qed

theorem pgxSeriesSet_At_invalid_row_data_witness:
  "pgxSeriesSet_At (sort_key Name) (ex_cursor 0 [ex_shortRow] None) =
     Inr (None, (ex_cursor 0 [ex_shortRow] None)\<lparr>err := Some ErrInvalidRowData\<rparr>) \<and>
   pgxSeriesSet_Err ((ex_cursor 0 [ex_shortRow] None)\<lparr>err := Some ErrInvalidRowData\<rparr>) =
     Some (ErrRetrievingSeriesSet ErrInvalidRowData)"
proof -
  have h1: "- 1 \<le> rowIdx (ex_cursor (- 1) [ex_shortRow] None)"
    by (simp add: ex_cursor_def)
  have h2: "pgxSeriesSet_Next (ex_cursor (- 1) [ex_shortRow] None) = Inr (True, ex_cursor 0 [ex_shortRow] None)"
    by (simp add: pgxSeriesSet_Next_def index_def ex_cursor_def ex_shortRow_def)
  have h3: "ex_shortRow = rows (ex_cursor 0 [ex_shortRow] None) ! nat (rowIdx (ex_cursor 0 [ex_shortRow] None))"
    by (simp add: ex_cursor_def)
  have h4: "row_err ex_shortRow = None"
    by (simp add: ex_shortRow_def)
  have h5: "length (row_times ex_shortRow) \<noteq> length (Elements (row_values ex_shortRow))"
    by (simp add: ex_shortRow_def)
  show ?thesis
    by (rule pgxSeriesSet_At_invalid_row_data[OF h1 h2 h3 h4 h5])
qed

text \<open>As stated, without the condition on the row's own error, the claim fails: on a row
  that failed upstream and whose columns differ in length, \<^verbatim>\<open>At()\<close> returns at the check of
  \<^verbatim>\<open>row.err\<close>, and \<^verbatim>\<open>Err()\<close> reports the upstream error.\<close>

theorem pgxSeriesSet_At_invalid_row_data_counterexample:
  "length (row_times ex_failedRow) \<noteq> length (Elements (row_values ex_failedRow))
   \<and> pgxSeriesSet_Next (ex_cursor (- 1) [ex_failedRow] None) =
       Inr (True, ex_cursor 0 [ex_failedRow] (Some (ErrUpstream ''scan failed'')))
   \<and> pgxSeriesSet_At (sort_key Name) (ex_cursor 0 [ex_failedRow] (Some (ErrUpstream ''scan failed''))) =
       Inr (None, ex_cursor 0 [ex_failedRow] (Some (ErrUpstream ''scan failed'')))
   \<and> pgxSeriesSet_Err (ex_cursor 0 [ex_failedRow] (Some (ErrUpstream ''scan failed''))) =
       Some (ErrRetrievingSeriesSet (ErrUpstream ''scan failed''))
   \<and> pgxSeriesSet_Err (ex_cursor 0 [ex_failedRow] (Some (ErrUpstream ''scan failed''))) \<noteq>
       Some (ErrRetrievingSeriesSet ErrInvalidRowData)"
  by (simp add: pgxSeriesSet_Next_def pgxSeriesSet_At_def pgxSeriesSet_Err_def index_def
      TimestampSeries_Len_def ex_cursor_def ex_failedRow_def)

section \<open>Resolving the label identifiers\<close>

lemma At_resolveLabels_skips_zero:
  "At_resolveLabels m (filter (\<lambda>i. i \<noteq> 0) ids) lls = At_resolveLabels m ids lls"
  by (induction ids arbitrary: lls) (simp_all split: option.splits)

lemma At_resolveLabels_Inr_iff:
  "At_resolveLabels m ids lls = Inr r \<longleftrightarrow>
     (\<forall>i\<in>set ids. i = 0 \<or> (m i \<noteq> None \<and> m i \<noteq> Some \<lparr>Name = [], Value = []\<rparr>)) \<and>
     r = lls @ map (\<lambda>i. the (m i)) (filter (\<lambda>i. i \<noteq> 0) ids)"
  by (induction ids arbitrary: lls) (auto split: option.splits)

lemma At_resolveLabels_missing:
  "i \<in> set ids \<Longrightarrow> i \<noteq> 0 \<Longrightarrow> m i = None \<or> m i = Some \<lparr>Name = [], Value = []\<rparr> \<Longrightarrow>
   \<exists>j\<in>set ids. j \<noteq> 0 \<and> (m j = None \<or> m j = Some \<lparr>Name = [], Value = []\<rparr>) \<and>
     At_resolveLabels m ids lls = Inl (ErrMissingLabel j)"
proof (induction ids arbitrary: lls)
  case Nil
  then show ?case by simp
next
  case (Cons a ids)
  show ?case
  proof (cases "a = 0")
    case True
    with Cons.prems have "i \<in> set ids" by auto
    from Cons.IH[OF this Cons.prems(2,3), of lls] True show ?thesis by auto
  next
    case False
    show ?thesis
    proof (cases "m a = None \<or> m a = Some \<lparr>Name = [], Value = []\<rparr>")
      case True
      with False show ?thesis by auto
    next
      case good: False
      with Cons.prems have "i \<in> set ids" by auto
      from Cons.IH[OF this Cons.prems(2,3), of "lls @ [the (m a)]"] False good show ?thesis by auto
    qed
  qed
qed

text \<open>
  Claim C4. In the assembly of a series (the row is in range, has no error of its own and
  columns of equal length): the loop over \<^verbatim>\<open>labelIds\<close> gives the same result with the zero
  identifiers removed; and if some non-zero identifier of the row is missing from the
  mapping or mapped to the zero label, then for such an identifier \<open>j\<close> \<^verbatim>\<open>At()\<close> returns nothing
  (no series, so no partial label list), the cursor holds the missing-label error for \<open>j\<close>,
  and \<^verbatim>\<open>Err()\<close> reports it in the series-set-retrieval wrapping.
\<close>

theorem pgxSeriesSet_At_missing_label:
  assumes "index (rows p) (rowIdx p) = Inr row"
    and "row_err row = None"
    and "length (row_times row) = length (Elements (row_values row))"
    and "i \<in> set (labelIds row)"
    and "i \<noteq> 0"
    and "labelIDMap p i = None \<or> labelIDMap p i = Some \<lparr>Name = [], Value = []\<rparr>"
  shows "(\<exists>j\<in>set (labelIds row). j \<noteq> 0 \<and>
            (labelIDMap p j = None \<or> labelIDMap p j = Some \<lparr>Name = [], Value = []\<rparr>) \<and>
            pgxSeriesSet_At srt p = Inr (None, p\<lparr>err := Some (ErrMissingLabel j)\<rparr>) \<and>
            pgxSeriesSet_Err (p\<lparr>err := Some (ErrMissingLabel j)\<rparr>) =
              Some (ErrRetrievingSeriesSet (ErrMissingLabel j)))
         \<and> At_resolveLabels (labelIDMap p) (filter (\<lambda>i. i \<noteq> 0) (labelIds row)) [] =
             At_resolveLabels (labelIDMap p) (labelIds row) []"
proof -
  from assms(1) have inr: "rowIdx p < int (length (rows p))"
    by (simp add: index_def split: if_splits)
  from assms(4) have ne: "labelIds row \<noteq> []" by auto
  from At_resolveLabels_missing[of i "labelIds row" "labelIDMap p" "[]"] assms(4-6)
  obtain j where j: "j \<in> set (labelIds row)" "j \<noteq> 0"
      "labelIDMap p j = None \<or> labelIDMap p j = Some \<lparr>Name = [], Value = []\<rparr>"
      "At_resolveLabels (labelIDMap p) (labelIds row) [] = Inl (ErrMissingLabel j)"
    by blast
  have "pgxSeriesSet_At srt p = Inr (None, p\<lparr>err := Some (ErrMissingLabel j)\<rparr>)"
    using inr ne assms(1-3) j(4)
    by (simp add: pgxSeriesSet_At_def TimestampSeries_Len_def)
  moreover have "pgxSeriesSet_Err (p\<lparr>err := Some (ErrMissingLabel j)\<rparr>) =
      Some (ErrRetrievingSeriesSet (ErrMissingLabel j))"
    by (simp add: pgxSeriesSet_Err_def)
  ultimately show ?thesis using j(1-3) At_resolveLabels_skips_zero by blast
qed

theorem pgxSeriesSet_At_missing_label_witness:
  "(\<exists>j\<in>set (labelIds ex_unresolvedRow). j \<noteq> 0 \<and>
      (labelIDMap (ex_cursor 0 [ex_unresolvedRow] None) j = None \<or>
       labelIDMap (ex_cursor 0 [ex_unresolvedRow] None) j = Some \<lparr>Name = [], Value = []\<rparr>) \<and>
      pgxSeriesSet_At (sort_key Name) (ex_cursor 0 [ex_unresolvedRow] None) =
        Inr (None, (ex_cursor 0 [ex_unresolvedRow] None)\<lparr>err := Some (ErrMissingLabel j)\<rparr>) \<and>
      pgxSeriesSet_Err ((ex_cursor 0 [ex_unresolvedRow] None)\<lparr>err := Some (ErrMissingLabel j)\<rparr>) =
        Some (ErrRetrievingSeriesSet (ErrMissingLabel j)))
   \<and> At_resolveLabels (labelIDMap (ex_cursor 0 [ex_unresolvedRow] None))
         (filter (\<lambda>i. i \<noteq> 0) (labelIds ex_unresolvedRow)) [] =
       At_resolveLabels (labelIDMap (ex_cursor 0 [ex_unresolvedRow] None)) (labelIds ex_unresolvedRow) []"
proof -
  have h1: "index (rows (ex_cursor 0 [ex_unresolvedRow] None)) (rowIdx (ex_cursor 0 [ex_unresolvedRow] None)) =
      Inr ex_unresolvedRow"
    by (simp add: index_def ex_cursor_def)
  have h2: "row_err ex_unresolvedRow = None"
    by (simp add: ex_unresolvedRow_def)
  have h3: "length (row_times ex_unresolvedRow) = length (Elements (row_values ex_unresolvedRow))"
    by (simp add: ex_unresolvedRow_def)
  have h4: "7 \<in> set (labelIds ex_unresolvedRow)"
    by (simp add: ex_unresolvedRow_def)
  have h5: "(7::int) \<noteq> 0" by simp
  have h6: "labelIDMap (ex_cursor 0 [ex_unresolvedRow] None) 7 = None \<or>
      labelIDMap (ex_cursor 0 [ex_unresolvedRow] None) 7 = Some \<lparr>Name = [], Value = []\<rparr>"
    by (simp add: ex_cursor_def ex_labelIDMap_def)
  show ?thesis
    by (rule pgxSeriesSet_At_missing_label[OF h1 h2 h3 h4 h5 h6])
qed

section \<open>The metric override\<close>

lemma length_At_overrideMetric: "length (At_overrideMetric v lls) = length lls"
  by (induction lls) simp_all

lemma map_Name_At_overrideMetric: "map Name (At_overrideMetric v lls) = map Name lls"
  by (induction lls) simp_all

lemma At_overrideMetric_absent:
  "MetricNameLabelName \<notin> Name ` set lls \<Longrightarrow> At_overrideMetric v lls = lls"
  by (induction lls) auto

lemma At_overrideMetric_nth:
  "k < length lls \<Longrightarrow>
   At_overrideMetric v lls ! k =
     (if Name (lls ! k) = MetricNameLabelName \<and> (\<forall>j<k. Name (lls ! j) \<noteq> MetricNameLabelName)
      then (lls ! k)\<lparr>Value := v\<rparr> else lls ! k)"
proof (induction lls arbitrary: k)
  case Nil
  then show ?case by simp
next
  case (Cons l lls)
  show ?case
  proof (cases k)
    case 0
    then show ?thesis by simp
  next
    case (Suc k')
    with Cons.prems have k': "k' < length lls" by simp
    show ?thesis
    proof (cases "Name l = MetricNameLabelName")
      case True
      then show ?thesis using Suc by auto
    next
      case False
      then show ?thesis using Suc Cons.IH[OF k'] by (auto simp: All_less_Suc2)
    qed
  qed
qed

lemma ex_override_eval:
  "pgxSeriesSet_At (sort_key Name) (ex_cursor 0 [ex_overrideRow] None) =
     Inr (Some \<lparr>labels = [\<lparr>Name = ''__name__'', Value = ''bar''\<rparr>, \<lparr>Name = ''__name__'', Value = ''baz''\<rparr>,
                          \<lparr>Name = ''job'', Value = ''a''\<rparr>],
                ps_times = [], ps_values = \<lparr>Elements = []\<rparr>\<rparr>, ex_cursor 0 [ex_overrideRow] None)"
  by (simp add: pgxSeriesSet_At_def index_def TimestampSeries_Len_def ex_cursor_def ex_overrideRow_def
      ex_labelIDMap_def MetricNameLabelName_def)

text \<open>
  Claim C5. For every row with a non-empty \<^verbatim>\<open>metricOverride\<close> whose assembly is reached and whose
  identifiers all resolve, with \<open>lls\<close> the resolved labels in \<^verbatim>\<open>labelIds\<close> order: \<^verbatim>\<open>At()\<close> succeeds,
  and the labels it sorts are a list \<open>lls'\<close> followed by the additional labels, where \<open>lls'\<close>
  has the length and the names of \<open>lls\<close>, and position \<open>k\<close> of \<open>lls'\<close> is position \<open>k\<close> of \<open>lls\<close>
  with the override as its value if that is the first label named \<^verbatim>\<open>__name__\<close>, and position
  \<open>k\<close> of \<open>lls\<close> unchanged otherwise (later labels of that name included). When no resolved label
  has that name, \<open>lls'\<close> is \<open>lls\<close>. (A row with no label identifiers gets no labels at all.)
\<close>

theorem pgxSeriesSet_At_metricOverride:
  assumes "index (rows p) (rowIdx p) = Inr row"
    and "row_err row = None"
    and "length (row_times row) = length (Elements (row_values row))"
    and "\<forall>i\<in>set (labelIds row). i = 0 \<or>
           (labelIDMap p i \<noteq> None \<and> labelIDMap p i \<noteq> Some \<lparr>Name = [], Value = []\<rparr>)"
    and "lls = map (\<lambda>i. the (labelIDMap p i)) (filter (\<lambda>i. i \<noteq> 0) (labelIds row))"
    and "metricOverride row \<noteq> []"
  shows "\<exists>lls'. pgxSeriesSet_At srt p =
           Inr (Some \<lparr>labels = (if labelIds row = [] then [] else srt (lls' @ additionalLabels row)),
                      ps_times = row_times row, ps_values = row_values row\<rparr>, p)
         \<and> length lls' = length lls \<and> map Name lls' = map Name lls
         \<and> (\<forall>k<length lls. lls' ! k =
               (if Name (lls ! k) = MetricNameLabelName \<and> (\<forall>j<k. Name (lls ! j) \<noteq> MetricNameLabelName)
                then (lls ! k)\<lparr>Value := metricOverride row\<rparr> else lls ! k))
         \<and> (MetricNameLabelName \<notin> Name ` set lls \<longrightarrow> lls' = lls)"
proof -
  from assms(1) have inr: "rowIdx p < int (length (rows p))"
    by (simp add: index_def split: if_splits)
  from assms(4,5) have res: "At_resolveLabels (labelIDMap p) (labelIds row) [] = Inr lls"
    by (simp add: At_resolveLabels_Inr_iff)
  let ?lls' = "At_overrideMetric (metricOverride row) lls"
  have "pgxSeriesSet_At srt p =
           Inr (Some \<lparr>labels = (if labelIds row = [] then [] else srt (?lls' @ additionalLabels row)),
                      ps_times = row_times row, ps_values = row_values row\<rparr>, p)"
    using inr assms(1-3,6) res
    by (simp add: pgxSeriesSet_At_def TimestampSeries_Len_def)
  then show ?thesis
    using length_At_overrideMetric[of "metricOverride row" lls]
      map_Name_At_overrideMetric[of "metricOverride row" lls]
      At_overrideMetric_nth[of _ lls "metricOverride row"]
      At_overrideMetric_absent[of lls "metricOverride row"]
    by (intro exI[of _ ?lls']) simp
qed

theorem pgxSeriesSet_At_metricOverride_witness:
  "pgxSeriesSet_At (sort_key Name) (ex_cursor 0 [ex_overrideRow] None) =
     Inr (Some \<lparr>labels = [\<lparr>Name = ''__name__'', Value = ''bar''\<rparr>, \<lparr>Name = ''__name__'', Value = ''baz''\<rparr>,
                          \<lparr>Name = ''job'', Value = ''a''\<rparr>],
                ps_times = [], ps_values = \<lparr>Elements = []\<rparr>\<rparr>, ex_cursor 0 [ex_overrideRow] None)
   \<and> (\<exists>lls'. pgxSeriesSet_At (sort_key Name) (ex_cursor 0 [ex_overrideRow] None) =
           Inr (Some \<lparr>labels = (if labelIds ex_overrideRow = [] then []
                                 else sort_key Name (lls' @ additionalLabels ex_overrideRow)),
                      ps_times = row_times ex_overrideRow, ps_values = row_values ex_overrideRow\<rparr>,
                ex_cursor 0 [ex_overrideRow] None)
         \<and> length lls' = length ex_overrideResolved \<and> map Name lls' = map Name ex_overrideResolved
         \<and> (\<forall>k<length ex_overrideResolved. lls' ! k =
               (if Name (ex_overrideResolved ! k) = MetricNameLabelName \<and>
                   (\<forall>j<k. Name (ex_overrideResolved ! j) \<noteq> MetricNameLabelName)
                then (ex_overrideResolved ! k)\<lparr>Value := metricOverride ex_overrideRow\<rparr>
                else ex_overrideResolved ! k))
         \<and> (MetricNameLabelName \<notin> Name ` set ex_overrideResolved \<longrightarrow> lls' = ex_overrideResolved))"
proof -
  have h1: "index (rows (ex_cursor 0 [ex_overrideRow] None)) (rowIdx (ex_cursor 0 [ex_overrideRow] None)) =
      Inr ex_overrideRow"
    by (simp add: index_def ex_cursor_def)
  have h2: "row_err ex_overrideRow = None"
    by (simp add: ex_overrideRow_def)
  have h3: "length (row_times ex_overrideRow) = length (Elements (row_values ex_overrideRow))"
    by (simp add: ex_overrideRow_def)
  have h4: "\<forall>i\<in>set (labelIds ex_overrideRow). i = 0 \<or>
           (labelIDMap (ex_cursor 0 [ex_overrideRow] None) i \<noteq> None \<and>
            labelIDMap (ex_cursor 0 [ex_overrideRow] None) i \<noteq> Some \<lparr>Name = [], Value = []\<rparr>)"
    by (simp add: ex_cursor_def ex_overrideRow_def ex_labelIDMap_def)
  have h5: "ex_overrideResolved =
      map (\<lambda>i. the (labelIDMap (ex_cursor 0 [ex_overrideRow] None) i))
        (filter (\<lambda>i. i \<noteq> 0) (labelIds ex_overrideRow))"
    by (simp add: ex_overrideResolved_def ex_cursor_def ex_overrideRow_def ex_labelIDMap_def)
  have h6: "metricOverride ex_overrideRow \<noteq> []"
    by (simp add: ex_overrideRow_def)
  show ?thesis
    by (rule conjI[OF ex_override_eval pgxSeriesSet_At_metricOverride[OF h1 h2 h3 h4 h5 h6]])
qed

section \<open>Additional labels and the sort\<close>

lemma ex_extra_eval:
  "pgxSeriesSet_At (sort_key Name) (ex_cursor 0 [ex_extraRow] None) =
     Inr (Some \<lparr>labels = [\<lparr>Name = ''__name__'', Value = ''foo''\<rparr>, \<lparr>Name = ''column'', Value = ''max''\<rparr>,
                          \<lparr>Name = ''job'', Value = ''a''\<rparr>],
                ps_times = [], ps_values = \<lparr>Elements = []\<rparr>\<rparr>, ex_cursor 0 [ex_extraRow] None)"
  by (simp add: pgxSeriesSet_At_def index_def TimestampSeries_Len_def ex_cursor_def ex_extraRow_def
      ex_labelIDMap_def)

text \<open>
  Claim C6, as amended. For every row whose assembly is reached and whose identifiers all
  resolve, and every sort that returns a permutation of its argument in ascending order of
  the names: \<^verbatim>\<open>At()\<close> produces a series over the row's times and values whose label list is
  sorted by name. If the row has at least one label identifier, the list is the sort of the
  resolved labels (after the override) followed by the additional labels, with every one of
  them kept (no deduplication). If the row has no label identifier, the list is empty
  and the additional labels are not in it.
\<close>

theorem pgxSeriesSet_At_labels_sorted:
  assumes "index (rows p) (rowIdx p) = Inr row"
    and "row_err row = None"
    and "length (row_times row) = length (Elements (row_values row))"
    and "\<forall>i\<in>set (labelIds row). i = 0 \<or>
           (labelIDMap p i \<noteq> None \<and> labelIDMap p i \<noteq> Some \<lparr>Name = [], Value = []\<rparr>)"
    and "lls = map (\<lambda>i. the (labelIDMap p i)) (filter (\<lambda>i. i \<noteq> 0) (labelIds row))"
    and "lls1 = (if metricOverride row \<noteq> [] then At_overrideMetric (metricOverride row) lls else lls)"
    and "\<forall>xs. mset (srt xs) = mset xs \<and> sorted (map Name (srt xs))"
  shows "\<exists>s. pgxSeriesSet_At srt p = Inr (Some s, p)
         \<and> ps_times s = row_times row \<and> ps_values s = row_values row
         \<and> sorted (map Name (labels s))
         \<and> (labelIds row \<noteq> [] \<longrightarrow>
               labels s = srt (lls1 @ additionalLabels row) \<and>
               mset (labels s) = mset lls1 + mset (additionalLabels row))
         \<and> (labelIds row = [] \<longrightarrow> labels s = [])"
proof -
  from assms(1) have inr: "rowIdx p < int (length (rows p))"
    by (simp add: index_def split: if_splits)
  from assms(4,5) have res: "At_resolveLabels (labelIDMap p) (labelIds row) [] = Inr lls"
    by (simp add: At_resolveLabels_Inr_iff)
  show ?thesis
  proof (cases "labelIds row = []")
    case True
    then show ?thesis using inr assms(1-3)
      by (simp add: pgxSeriesSet_At_def TimestampSeries_Len_def)
  next
    case False
    then have "pgxSeriesSet_At srt p =
        Inr (Some \<lparr>labels = srt (lls1 @ additionalLabels row),
                   ps_times = row_times row, ps_values = row_values row\<rparr>, p)"
      using inr assms(1-3,6) res
      by (simp add: pgxSeriesSet_At_def TimestampSeries_Len_def)
    then show ?thesis using False assms(7) by simp
  qed
qed

theorem pgxSeriesSet_At_labels_sorted_witness:
  "pgxSeriesSet_At (sort_key Name) (ex_cursor 0 [ex_extraRow] None) =
     Inr (Some \<lparr>labels = [\<lparr>Name = ''__name__'', Value = ''foo''\<rparr>, \<lparr>Name = ''column'', Value = ''max''\<rparr>,
                          \<lparr>Name = ''job'', Value = ''a''\<rparr>],
                ps_times = [], ps_values = \<lparr>Elements = []\<rparr>\<rparr>, ex_cursor 0 [ex_extraRow] None)
   \<and> (\<exists>s. pgxSeriesSet_At (sort_key Name) (ex_cursor 0 [ex_extraRow] None) =
             Inr (Some s, ex_cursor 0 [ex_extraRow] None)
         \<and> ps_times s = row_times ex_extraRow \<and> ps_values s = row_values ex_extraRow
         \<and> sorted (map Name (labels s))
         \<and> (labelIds ex_extraRow \<noteq> [] \<longrightarrow>
               labels s = sort_key Name (ex_extraResolved @ additionalLabels ex_extraRow) \<and>
               mset (labels s) = mset ex_extraResolved + mset (additionalLabels ex_extraRow))
         \<and> (labelIds ex_extraRow = [] \<longrightarrow> labels s = []))"
proof -
  have h1: "index (rows (ex_cursor 0 [ex_extraRow] None)) (rowIdx (ex_cursor 0 [ex_extraRow] None)) =
      Inr ex_extraRow"
    by (simp add: index_def ex_cursor_def)
  have h2: "row_err ex_extraRow = None"
    by (simp add: ex_extraRow_def)
  have h3: "length (row_times ex_extraRow) = length (Elements (row_values ex_extraRow))"
    by (simp add: ex_extraRow_def)
  have h4: "\<forall>i\<in>set (labelIds ex_extraRow). i = 0 \<or>
           (labelIDMap (ex_cursor 0 [ex_extraRow] None) i \<noteq> None \<and>
            labelIDMap (ex_cursor 0 [ex_extraRow] None) i \<noteq> Some \<lparr>Name = [], Value = []\<rparr>)"
    by (simp add: ex_cursor_def ex_extraRow_def ex_labelIDMap_def)
  have h5: "ex_extraResolved =
      map (\<lambda>i. the (labelIDMap (ex_cursor 0 [ex_extraRow] None) i))
        (filter (\<lambda>i. i \<noteq> 0) (labelIds ex_extraRow))"
    by (simp add: ex_extraResolved_def ex_cursor_def ex_extraRow_def ex_labelIDMap_def)
  have h6: "ex_extraResolved =
      (if metricOverride ex_extraRow \<noteq> [] then At_overrideMetric (metricOverride ex_extraRow) ex_extraResolved
       else ex_extraResolved)"
    by (simp add: ex_extraRow_def)
  have h7: "\<forall>xs. mset (sort_key Name xs) = mset xs \<and> sorted (map Name (sort_key Name xs))"
    by simp
  show ?thesis
    by (rule conjI[OF ex_extra_eval pgxSeriesSet_At_labels_sorted[OF h1 h2 h3 h4 h5 h6 h7]])
qed

text \<open>As stated, for every row on which \<^verbatim>\<open>At()\<close> produces a series, the claim fails: on a row
  with an additional label and no label identifiers, \<^verbatim>\<open>At()\<close> returns at the check of
  \<^verbatim>\<open>len(row.labelIds)\<close> with a series that has no labels.\<close>

theorem pgxSeriesSet_At_labels_sorted_counterexample:
  "pgxSeriesSet_Next (ex_cursor (- 1) [ex_bareRow] None) = Inr (True, ex_cursor 0 [ex_bareRow] None)
   \<and> pgxSeriesSet_At (sort_key Name) (ex_cursor 0 [ex_bareRow] None) =
       Inr (Some \<lparr>labels = [], ps_times = [], ps_values = \<lparr>Elements = []\<rparr>\<rparr>, ex_cursor 0 [ex_bareRow] None)
   \<and> additionalLabels ex_bareRow = [\<lparr>Name = ''column'', Value = ''max''\<rparr>]
   \<and> [] \<noteq> sort_key Name ([] @ additionalLabels ex_bareRow)"
  by (simp add: pgxSeriesSet_Next_def pgxSeriesSet_At_def index_def TimestampSeries_Len_def
      ex_cursor_def ex_bareRow_def)

section \<open>The sample iterator: \<^verbatim>\<open>Next\<close>\<close>

lemma presentSample_cur [simp]: "presentSample (p\<lparr>cur := c\<rparr>) i = presentSample p i"
  by (simp add: presentSample_def)

lemma wellFormed_cur [simp]: "wellFormed (p\<lparr>cur := c\<rparr>) = wellFormed p"
  by (simp add: wellFormed_def)

lemma At_Iterator_wellFormed:
  "pgxSeriesSet_At srt p = Inr (Some s, p') \<Longrightarrow>
   wellFormed (pgxSeries_Iterator s) \<and> cur (pgxSeries_Iterator s) = - 1"
  by (auto simp: pgxSeriesSet_At_def pgxSeries_Iterator_def newIterator_def wellFormed_def
      TimestampSeries_Len_def Let_def split: if_splits sum.splits)

lemma Next_at_end:
  "totalSamples p \<le> cur p + 1 \<Longrightarrow>
   pgxSeriesIterator_Next p = Some (Inr (False, p\<lparr>cur := cur p + 1\<rparr>))"
  by (subst pgxSeriesIterator_Next.simps) (simp add: Let_def)

lemma Next_step:
  assumes "wellFormed p" and "- 1 \<le> cur p" and "cur p + 1 < totalSamples p"
  shows "pgxSeriesIterator_Next p =
     (if presentSample p (nat (cur p + 1)) then Some (Inr (True, p\<lparr>cur := cur p + 1\<rparr>))
      else pgxSeriesIterator_Next (p\<lparr>cur := cur p + 1\<rparr>))"
  using assms
  by (subst pgxSeriesIterator_Next.simps)
     (auto simp: Let_def wellFormed_def presentSample_def TimestampSeries_At_def index_def
           split: sum.splits prod.splits)

lemma Next_found:
  assumes "wellFormed p" and "- 1 \<le> cur p" and "cur p < int i" and "i < length (it_times p)"
    and "presentSample p i" and "\<forall>j. cur p < int j \<and> j < i \<longrightarrow> \<not> presentSample p j"
  shows "pgxSeriesIterator_Next p = Some (Inr (True, p\<lparr>cur := int i\<rparr>))"
  using assms
proof (induction "i - nat (cur p + 1)" arbitrary: p)
  case 0
  then have eq: "cur p + 1 = int i" by linarith
  from 0 have "cur p + 1 < totalSamples p" by (simp add: wellFormed_def)
  from Next_step[OF "0.prems"(1,2) this] eq "0.prems"(5) show ?case by simp
next
  case (Suc d)
  let ?q = "p\<lparr>cur := cur p + 1\<rparr>"
  from Suc have lt: "cur p + 1 < int i" by linarith
  with Suc.prems have tot: "cur p + 1 < totalSamples p" by (simp add: wellFormed_def)
  from lt Suc.prems(2,6) have np: "\<not> presentSample p (nat (cur p + 1))" by auto
  have step: "pgxSeriesIterator_Next p = pgxSeriesIterator_Next ?q"
    using Next_step[OF Suc.prems(1,2) tot] np by simp
  have "pgxSeriesIterator_Next ?q = Some (Inr (True, ?q\<lparr>cur := int i\<rparr>))"
  proof (rule Suc.hyps(1))
    show "d = i - nat (cur ?q + 1)" using Suc.hyps(2) Suc.prems(2) by auto
    show "wellFormed ?q" using Suc.prems(1) by simp
    show "- 1 \<le> cur ?q" using Suc.prems(2) by simp
    show "cur ?q < int i" using lt by simp
    show "i < length (it_times ?q)" using Suc.prems(4) by simp
    show "presentSample ?q i" using Suc.prems(5) by simp
    show "\<forall>j. cur ?q < int j \<and> j < i \<longrightarrow> \<not> presentSample ?q j" using Suc.prems(6) by simp
  qed
  with step show ?case by simp
qed

lemma Next_exhausted:
  assumes "wellFormed p" and "- 1 \<le> cur p"
    and "\<forall>j. cur p < int j \<and> j < length (it_times p) \<longrightarrow> \<not> presentSample p j"
  shows "pgxSeriesIterator_Next p = Some (Inr (False, p\<lparr>cur := max (cur p + 1) (totalSamples p)\<rparr>))"
  using assms
proof (induction "nat (totalSamples p - cur p)" arbitrary: p rule: less_induct)
  case less
  show ?case
  proof (cases "totalSamples p \<le> cur p + 1")
    case True
    then have "max (cur p + 1) (totalSamples p) = cur p + 1" by simp
    with Next_at_end[OF True] show ?thesis by simp
  next
    case False
    let ?q = "p\<lparr>cur := cur p + 1\<rparr>"
    from False have tot: "cur p + 1 < totalSamples p" by simp
    with less.prems(1,2) have "nat (cur p + 1) < length (it_times p)" by (simp add: wellFormed_def nat_less_iff)
    with less.prems(2,3) have np: "\<not> presentSample p (nat (cur p + 1))" by auto
    have step: "pgxSeriesIterator_Next p = pgxSeriesIterator_Next ?q"
      using Next_step[OF less.prems(1,2) tot] np by simp
    have "pgxSeriesIterator_Next ?q = Some (Inr (False, ?q\<lparr>cur := max (cur ?q + 1) (totalSamples ?q)\<rparr>))"
    proof (rule less.hyps)
      show "nat (totalSamples ?q - cur ?q) < nat (totalSamples p - cur p)" using tot by simp
      show "wellFormed ?q" using less.prems(1) by simp
      show "- 1 \<le> cur ?q" using less.prems(2) by simp
      show "\<forall>j. cur ?q < int j \<and> j < length (it_times ?q) \<longrightarrow> \<not> presentSample ?q j"
        using less.prems(3) by simp
    qed
    moreover have "max (cur ?q + 1) (totalSamples ?q) = max (cur p + 1) (totalSamples p)"
      using tot by simp
    ultimately show ?thesis using step by simp
  qed
qed

lemma Next_cases:
  assumes "cur p + 1 < totalSamples p"
  obtains (found) "pgxSeriesIterator_Next p = Some (Inr (True, p\<lparr>cur := cur p + 1\<rparr>))"
    | (panic) e where "pgxSeriesIterator_Next p = Some (Inl e)"
    | (skip) "pgxSeriesIterator_Next p = pgxSeriesIterator_Next (p\<lparr>cur := cur p + 1\<rparr>)"
proof -
  let ?q = "p\<lparr>cur := cur p + 1\<rparr>"
  show thesis
  proof (cases "TimestampSeries_At (it_times p) (cur p + 1)")
    case (Inl e)
    with assms have "pgxSeriesIterator_Next p = Some (Inl e)"
      by (subst pgxSeriesIterator_Next.simps) (simp add: Let_def)
    then show thesis by (rule panic)
  next
    case (Inr tsok)
    obtain ts ok where tsok: "tsok = (ts, ok)" by (cases tsok)
    show thesis
    proof (cases ok)
      case False
      with assms Inr tsok have "pgxSeriesIterator_Next p = pgxSeriesIterator_Next ?q"
        by (subst pgxSeriesIterator_Next.simps) (simp add: Let_def)
      then show thesis by (rule skip)
    next
      case True
      show thesis
      proof (cases "index (Elements (it_values p)) (cur p + 1)")
        case (Inl e)
        with assms Inr tsok True have "pgxSeriesIterator_Next p = Some (Inl e)"
          by (subst pgxSeriesIterator_Next.simps) (simp add: Let_def)
        then show thesis by (rule panic)
      next
        case v: (Inr v)
        show thesis
        proof (cases "Status v = Present")
          case True
          with assms Inr tsok \<open>ok\<close> v have "pgxSeriesIterator_Next p = Some (Inr (True, ?q))"
            by (subst pgxSeriesIterator_Next.simps) (simp add: Let_def)
          then show thesis by (rule found)
        next
          case False
          with assms Inr tsok \<open>ok\<close> v have "pgxSeriesIterator_Next p = pgxSeriesIterator_Next ?q"
            by (subst pgxSeriesIterator_Next.simps) (simp add: Let_def)
          then show thesis by (rule skip)
        qed
      qed
    qed
  qed
qed

lemma Next_terminates: "\<exists>r. pgxSeriesIterator_Next p = Some r"
proof (induction "nat (totalSamples p - cur p)" arbitrary: p rule: less_induct)
  case less
  let ?q = "p\<lparr>cur := cur p + 1\<rparr>"
  show ?case
  proof (cases "totalSamples p \<le> cur p + 1")
    case True
    from Next_at_end[OF this] show ?thesis by simp
  next
    case False
    then have lt: "cur p + 1 < totalSamples p" by simp
    then have "nat (totalSamples ?q - cur ?q) < nat (totalSamples p - cur p)" by simp
    from less.hyps[OF this] obtain r where r: "pgxSeriesIterator_Next ?q = Some r" by blast
    from lt show ?thesis
      by (cases p rule: Next_cases) (simp_all add: r)
  qed
qed

lemma Next_result:
  "pgxSeriesIterator_Next p = Some (Inr (b, p')) \<Longrightarrow>
   p' = p\<lparr>cur := cur p'\<rparr> \<and> totalSamples p' = totalSamples p \<and>
   cur p < cur p' \<and> cur p' \<le> max (cur p + 1) (totalSamples p) \<and>
   (if b then cur p' < totalSamples p else totalSamples p \<le> cur p')"
proof (induction "nat (totalSamples p - cur p)" arbitrary: p rule: less_induct)
  case less
  let ?q = "p\<lparr>cur := cur p + 1\<rparr>"
  show ?case
  proof (cases "totalSamples p \<le> cur p + 1")
    case True
    from Next_at_end[OF this] less.prems True show ?thesis by auto
  next
    case False
    then have lt: "cur p + 1 < totalSamples p" by simp
    then have m: "nat (totalSamples ?q - cur ?q) < nat (totalSamples p - cur p)" by simp
    from lt show ?thesis
    proof (cases p rule: Next_cases)
      case found
      with less.prems have "b" "p' = ?q" by simp_all
      then show ?thesis using lt by simp
    next
      case (panic e)
      with less.prems show ?thesis by simp
    next
      case skip
      with less.prems have "pgxSeriesIterator_Next ?q = Some (Inr (b, p'))" by simp
      from less.hyps[OF m this] lt show ?thesis by auto
    qed
  qed
qed

lemma At_in_range:
  assumes "wellFormed p" and "i < length (it_times p)"
  shows "pgxSeriesIterator_At (p\<lparr>cur := int i\<rparr>) =
           Inr (fst (it_times p ! i), Float (Elements (it_values p) ! i))"
  using assms
  by (simp add: pgxSeriesIterator_At_def getTs_def getVal_def TimestampSeries_At_def index_def
      wellFormed_def split: prod.splits)

lemma At_out_of_range:
  "cur p \<ge> totalSamples p \<or> cur p < 0 \<Longrightarrow> pgxSeriesIterator_At p = Inr (0, 0)"
  by (simp add: pgxSeriesIterator_At_def)

text \<open>The spec's sample data.\<close>

lemmas ex_iterator_defs = ex_iterator_def ex_times_def ex_values_def

lemma ex_newIterator: "newIterator ex_times ex_values = ex_iterator (- 1)"
  by (simp add: newIterator_def TimestampSeries_Len_def ex_iterator_defs)

lemma ex_wellFormed: "wellFormed (ex_iterator c)"
  by (simp add: wellFormed_def ex_iterator_defs)

lemma ex_iterator_cur [simp]: "(ex_iterator c)\<lparr>cur := d\<rparr> = ex_iterator d" "cur (ex_iterator c) = c"
  "totalSamples (ex_iterator c) = 4"
  by (simp_all add: ex_iterator_def)

lemma ex_presentSample:
  "presentSample (ex_iterator c) 0" "\<not> presentSample (ex_iterator c) (Suc 0)"
  "presentSample (ex_iterator c) 2" "\<not> presentSample (ex_iterator c) 3"
  by (simp_all add: presentSample_def ex_iterator_defs)

lemma ex_Next:
  "pgxSeriesIterator_Next (ex_iterator (- 1)) = Some (Inr (True, ex_iterator 0))"
  "pgxSeriesIterator_Next (ex_iterator 0) = Some (Inr (True, ex_iterator 2))"
  "pgxSeriesIterator_Next (ex_iterator 2) = Some (Inr (False, ex_iterator 4))"
  "pgxSeriesIterator_Next (ex_iterator 4) = Some (Inr (False, ex_iterator 5))"
  by (simp_all add: Next_step Next_at_end ex_wellFormed ex_presentSample)

lemma ex_At:
  "pgxSeriesIterator_At (ex_iterator (- 1)) = Inr (0, 0)"
  "pgxSeriesIterator_At (ex_iterator 0) = Inr (0, 1)"
  "pgxSeriesIterator_At (ex_iterator 2) = Inr (2, 3)"
  "pgxSeriesIterator_At (ex_iterator 4) = Inr (0, 0)"
  by (simp_all add: pgxSeriesIterator_At_def getTs_def getVal_def TimestampSeries_At_def index_def
      ex_iterator_defs)

text \<open>
  Claim C7. For every iterator as \<^verbatim>\<open>newIterator\<close> sets it up for a series of the cursor, at any
  position from \<open>-1\<close> on: if \<open>i\<close> is the first position after the cursor that holds a present
  sample, \<^verbatim>\<open>Next()\<close> returns true with the cursor on \<open>i\<close> (every position before it, with an
  absent value or an unreadable timestamp, is passed over), and \<^verbatim>\<open>At()\<close> returns that sample;
  if no position after the cursor holds a present sample, \<^verbatim>\<open>Next()\<close> returns false, with the
  cursor at the sample count (or one further, if it was there already). On times
  \<open>[0, 1, 2, 3]\<close> and values \<open>[1.0, null, 3.0, null]\<close> the iterator yields \<open>(0, 1.0)\<close>, then
  \<open>(2, 3.0)\<close>, and then \<^verbatim>\<open>Next()\<close> returns false twice.
\<close>

theorem pgxSeriesIterator_Next_skips_absent:
  assumes "wellFormed p" and "- 1 \<le> cur p"
  shows "(cur p < int i \<and> i < length (it_times p) \<and> presentSample p i \<and>
            (\<forall>j. cur p < int j \<and> j < i \<longrightarrow> \<not> presentSample p j) \<longrightarrow>
          pgxSeriesIterator_Next p = Some (Inr (True, p\<lparr>cur := int i\<rparr>)) \<and>
          pgxSeriesIterator_At (p\<lparr>cur := int i\<rparr>) =
            Inr (fst (it_times p ! i), Float (Elements (it_values p) ! i)))
       \<and> ((\<forall>j. cur p < int j \<and> j < length (it_times p) \<longrightarrow> \<not> presentSample p j) \<longrightarrow>
          pgxSeriesIterator_Next p = Some (Inr (False, p\<lparr>cur := max (cur p + 1) (totalSamples p)\<rparr>)))
       \<and> (pgxSeriesIterator_Next (newIterator ex_times ex_values) = Some (Inr (True, ex_iterator 0)) \<and>
          pgxSeriesIterator_At (ex_iterator 0) = Inr (0, 1) \<and>
          pgxSeriesIterator_Next (ex_iterator 0) = Some (Inr (True, ex_iterator 2)) \<and>
          pgxSeriesIterator_At (ex_iterator 2) = Inr (2, 3) \<and>
          pgxSeriesIterator_Next (ex_iterator 2) = Some (Inr (False, ex_iterator 4)) \<and>
          pgxSeriesIterator_Next (ex_iterator 4) = Some (Inr (False, ex_iterator 5)))"
  using Next_found[OF assms, of i] Next_exhausted[OF assms] At_in_range[OF assms(1), of i]
  by (simp add: ex_newIterator ex_Next ex_At)

theorem pgxSeriesIterator_Next_skips_absent_witness:
  "wellFormed (ex_iterator 0) \<and> - 1 \<le> cur (ex_iterator 0)
   \<and> pgxSeriesIterator_Next (ex_iterator 0) = Some (Inr (True, (ex_iterator 0)\<lparr>cur := int 2\<rparr>))
   \<and> pgxSeriesIterator_At ((ex_iterator 0)\<lparr>cur := int 2\<rparr>) = Inr (2, 3)
   \<and> wellFormed (ex_iterator 2) \<and> - 1 \<le> cur (ex_iterator 2)
   \<and> pgxSeriesIterator_Next (ex_iterator 2) = Some (Inr (False, (ex_iterator 2)\<lparr>cur := 4\<rparr>))"
proof -
  have w: "wellFormed (ex_iterator c)" for c
    by (simp add: wellFormed_def ex_iterator_def ex_times_def ex_values_def)
  have c: "- 1 \<le> cur (ex_iterator 0)" "- 1 \<le> cur (ex_iterator 2)"
    by (simp_all add: ex_iterator_def)
  have a: "cur (ex_iterator 0) < int 2 \<and> 2 < length (it_times (ex_iterator 0)) \<and>
      presentSample (ex_iterator 0) 2 \<and>
      (\<forall>j. cur (ex_iterator 0) < int j \<and> j < 2 \<longrightarrow> \<not> presentSample (ex_iterator 0) j)"
    by (auto simp: presentSample_def ex_iterator_def ex_times_def ex_values_def less_Suc_eq numeral_2_eq_2)
  have b: "\<forall>j. cur (ex_iterator 2) < int j \<and> j < length (it_times (ex_iterator 2)) \<longrightarrow>
      \<not> presentSample (ex_iterator 2) j"
    by (auto simp: presentSample_def ex_iterator_def ex_times_def ex_values_def less_Suc_eq
        numeral_3_eq_3 numeral_2_eq_2)
  from pgxSeriesIterator_Next_skips_absent[OF w c(1), of 2] a
  have 1: "pgxSeriesIterator_Next (ex_iterator 0) = Some (Inr (True, (ex_iterator 0)\<lparr>cur := int 2\<rparr>))"
    and 2: "pgxSeriesIterator_At ((ex_iterator 0)\<lparr>cur := int 2\<rparr>) =
      Inr (fst (it_times (ex_iterator 0) ! 2), Float (Elements (it_values (ex_iterator 0)) ! 2))"
    by blast+
  from pgxSeriesIterator_Next_skips_absent[OF w c(2), of 0] b
  have 3: "pgxSeriesIterator_Next (ex_iterator 2) =
      Some (Inr (False, (ex_iterator 2)\<lparr>cur := max (cur (ex_iterator 2) + 1) (totalSamples (ex_iterator 2))\<rparr>))"
    by blast
  from 2 have e2: "pgxSeriesIterator_At ((ex_iterator 0)\<lparr>cur := int 2\<rparr>) = Inr (2, 3)"
    by (simp add: ex_iterator_def ex_times_def ex_values_def)
  from 3 have e3: "pgxSeriesIterator_Next (ex_iterator 2) = Some (Inr (False, (ex_iterator 2)\<lparr>cur := 4\<rparr>))"
    by (simp add: ex_iterator_def)
  from w c 1 e2 e3 show ?thesis by blast
qed

section \<open>The sample iterator: \<^verbatim>\<open>Seek\<close>\<close>

lemma getTs_in_range:
  "0 \<le> cur p \<Longrightarrow> cur p < int (length (it_times p)) \<Longrightarrow>
   getTs p = Inr (fst (it_times p ! nat (cur p)))"
  by (simp add: getTs_def TimestampSeries_At_def index_def split: prod.splits)

lemma Seek_loop_True:
  "pgxSeriesIterator_Next p = Some (Inr (True, q)) \<Longrightarrow> getTs q = Inr ts \<Longrightarrow>
   Seek_loop t p = (if ts \<ge> t then Some (Inr (True, q)) else Seek_loop t q)"
  by (subst Seek_loop.simps) simp

lemma Seek_loop_False:
  "pgxSeriesIterator_Next p = Some (Inr (False, q)) \<Longrightarrow> Seek_loop t p = Some (Inr (False, q))"
  by (subst Seek_loop.simps) simp

lemma Seek_loop_panic:
  "pgxSeriesIterator_Next p = Some (Inl e) \<Longrightarrow> Seek_loop t p = Some (Inl e)"
  by (subst Seek_loop.simps) simp

lemma first_present:
  assumes "cur p < int i" and "presentSample p i"
  obtains k where "cur p < int k" and "k \<le> i" and "presentSample p k"
    and "\<forall>j. cur p < int j \<and> j < k \<longrightarrow> \<not> presentSample p j"
proof -
  let ?P = "\<lambda>k. cur p < int k \<and> presentSample p k"
  define k where "k = (LEAST k. ?P k)"
  have ex: "?P i" using assms by simp
  have 1: "?P k" unfolding k_def using ex by (rule LeastI[of ?P i])
  have 2: "k \<le> i" unfolding k_def using ex by (rule Least_le[of ?P i])
  have 3: "\<forall>j. cur p < int j \<and> j < k \<longrightarrow> \<not> presentSample p j"
    unfolding k_def using not_less_Least[of _ ?P] by blast
  from that[of k] 1 2 3 show thesis by blast
qed

lemma Seek_loop_found:
  assumes "wellFormed p" and "- 1 \<le> cur p" and "cur p < int i" and "i < length (it_times p)"
    and "presentSample p i" and "t \<le> fst (it_times p ! i)"
    and "\<forall>j. cur p < int j \<and> j < i \<longrightarrow> \<not> (presentSample p j \<and> t \<le> fst (it_times p ! j))"
  shows "Seek_loop t p = Some (Inr (True, p\<lparr>cur := int i\<rparr>))"
  using assms
proof (induction "i - nat (cur p + 1)" arbitrary: p rule: less_induct)
  case less
  from first_present[OF less.prems(3,5)]
  obtain k where k: "cur p < int k" "k \<le> i" "presentSample p k"
      "\<forall>j. cur p < int j \<and> j < k \<longrightarrow> \<not> presentSample p j" by blast
  let ?q = "p\<lparr>cur := int k\<rparr>"
  from k(2) less.prems(4) have klen: "k < length (it_times p)" by simp
  have nx: "pgxSeriesIterator_Next p = Some (Inr (True, ?q))"
    by (rule Next_found[OF less.prems(1,2) k(1) klen k(3,4)])
  have ts: "getTs ?q = Inr (fst (it_times p ! k))"
    using getTs_in_range[of ?q] klen by simp
  note unfold = Seek_loop_True[OF nx ts, of t]
  show ?case
  proof (cases "k = i")
    case True
    with unfold less.prems(6) show ?thesis by simp
  next
    case False
    with k(2) have ki: "k < i" by simp
    with less.prems(7) k(1,3) have "\<not> t \<le> fst (it_times p ! k)" by blast
    with unfold have step: "Seek_loop t p = Seek_loop t ?q" by simp
    have "Seek_loop t ?q = Some (Inr (True, ?q\<lparr>cur := int i\<rparr>))"
    proof (rule less.hyps)
      show "i - nat (cur ?q + 1) < i - nat (cur p + 1)" using k(1) ki less.prems(2) by simp
      show "wellFormed ?q" using less.prems(1) by simp
      show "- 1 \<le> cur ?q" by simp
      show "cur ?q < int i" using ki by simp
      show "i < length (it_times ?q)" using less.prems(4) by simp
      show "presentSample ?q i" using less.prems(5) by simp
      show "t \<le> fst (it_times ?q ! i)" using less.prems(6) by simp
      show "\<forall>j. cur ?q < int j \<and> j < i \<longrightarrow> \<not> (presentSample ?q j \<and> t \<le> fst (it_times ?q ! j))"
        using less.prems(7) k(1) by auto
    qed
    with step show ?thesis by simp
  qed
qed

lemma Seek_loop_exhausted:
  assumes "wellFormed p" and "- 1 \<le> cur p" and "cur p + 1 \<le> totalSamples p"
    and "\<forall>j. cur p < int j \<and> j < length (it_times p) \<longrightarrow>
           \<not> (presentSample p j \<and> t \<le> fst (it_times p ! j))"
  shows "Seek_loop t p = Some (Inr (False, p\<lparr>cur := totalSamples p\<rparr>))"
  using assms
proof (induction "nat (totalSamples p - cur p)" arbitrary: p rule: less_induct)
  case less
  show ?case
  proof (cases "\<exists>i. cur p < int i \<and> i < length (it_times p) \<and> presentSample p i")
    case False
    then have "\<forall>j. cur p < int j \<and> j < length (it_times p) \<longrightarrow> \<not> presentSample p j" by blast
    from Next_exhausted[OF less.prems(1,2) this] less.prems(3)
    have "pgxSeriesIterator_Next p = Some (Inr (False, p\<lparr>cur := totalSamples p\<rparr>))"
      by (simp add: max_def)
    then show ?thesis by (rule Seek_loop_False)
  next
    case True
    then obtain i where i: "cur p < int i" "i < length (it_times p)" "presentSample p i" by blast
    from first_present[OF i(1,3)]
    obtain k where k: "cur p < int k" "k \<le> i" "presentSample p k"
        "\<forall>j. cur p < int j \<and> j < k \<longrightarrow> \<not> presentSample p j" by blast
    let ?q = "p\<lparr>cur := int k\<rparr>"
    from k(2) i(2) have klen: "k < length (it_times p)" by simp
    have nx: "pgxSeriesIterator_Next p = Some (Inr (True, ?q))"
      by (rule Next_found[OF less.prems(1,2) k(1) klen k(3,4)])
    have ts: "getTs ?q = Inr (fst (it_times p ! k))"
      using getTs_in_range[of ?q] klen by simp
    from less.prems(4) k(1,3) klen have "\<not> t \<le> fst (it_times p ! k)" by blast
    with Seek_loop_True[OF nx ts, of t] have step: "Seek_loop t p = Seek_loop t ?q" by simp
    from klen less.prems(1) have ktot: "int k < totalSamples p" by (simp add: wellFormed_def)
    have "Seek_loop t ?q = Some (Inr (False, ?q\<lparr>cur := totalSamples ?q\<rparr>))"
    proof (rule less.hyps)
      show "nat (totalSamples ?q - cur ?q) < nat (totalSamples p - cur p)" using k(1) ktot by simp
      show "wellFormed ?q" using less.prems(1) by simp
      show "- 1 \<le> cur ?q" by simp
      show "cur ?q + 1 \<le> totalSamples ?q" using ktot by simp
      show "\<forall>j. cur ?q < int j \<and> j < length (it_times ?q) \<longrightarrow>
           \<not> (presentSample ?q j \<and> t \<le> fst (it_times ?q ! j))"
        using less.prems(4) k(1) by auto
    qed
    with step show ?thesis by simp
  qed
qed

lemma Seek_loop_terminates:
  "\<exists>r. Seek_loop t p = Some r \<and>
     (\<forall>b p'. r = Inr (b, p') \<longrightarrow> cur p < cur p' \<and> cur p' \<le> max (cur p + 1) (totalSamples p))"
proof (induction "nat (totalSamples p - cur p)" arbitrary: p rule: less_induct)
  case less
  from Next_terminates[of p] obtain r where r: "pgxSeriesIterator_Next p = Some r" by blast
  show ?case
  proof (cases r)
    case (Inl e)
    with r Seek_loop_panic[of p e t] show ?thesis by simp
  next
    case (Inr bq)
    obtain b q where bq: "bq = (b, q)" by (cases bq)
    from r Inr bq have nx: "pgxSeriesIterator_Next p = Some (Inr (b, q))" by simp
    note res = Next_result[OF nx]
    show ?thesis
    proof (cases b)
      case False
      with nx Seek_loop_False[of p q t] res show ?thesis by simp
    next
      case True
      with res have q: "cur p < cur q" "cur q < totalSamples p" "totalSamples q = totalSamples p"
        by simp_all
      show ?thesis
      proof (cases "getTs q")
        case (Inl e)
        with nx True show ?thesis by (subst Seek_loop.simps) simp
      next
        case ts: (Inr ts)
        from nx True have nx': "pgxSeriesIterator_Next p = Some (Inr (True, q))" by simp
        note unfold = Seek_loop_True[OF nx' ts, of t]
        show ?thesis
        proof (cases "ts \<ge> t")
          case True
          with unfold q show ?thesis by simp
        next
          case False
          with unfold have step: "Seek_loop t p = Seek_loop t q" by simp
          have "nat (totalSamples q - cur q) < nat (totalSamples p - cur p)" using q by simp
          from less.hyps[OF this] step q show ?thesis by auto
        qed
      qed
    qed
  qed
qed

lemma ex_Seek:
  "pgxSeriesIterator_Seek (ex_iterator c) 2 = Some (Inr (True, ex_iterator 2))"
  "pgxSeriesIterator_Seek (ex_iterator c) 10 = Some (Inr (False, ex_iterator 4))"
proof -
  have g0: "getTs (ex_iterator 0) = Inr 0" and g2: "getTs (ex_iterator 2) = Inr 2"
    by (simp_all add: getTs_def TimestampSeries_At_def index_def ex_iterator_defs)
  show "pgxSeriesIterator_Seek (ex_iterator c) 2 = Some (Inr (True, ex_iterator 2))"
    by (simp add: pgxSeriesIterator_Seek_def Seek_loop_True[OF ex_Next(1) g0]
        Seek_loop_True[OF ex_Next(2) g2])
  show "pgxSeriesIterator_Seek (ex_iterator c) 10 = Some (Inr (False, ex_iterator 4))"
    by (simp add: pgxSeriesIterator_Seek_def Seek_loop_True[OF ex_Next(1) g0]
        Seek_loop_True[OF ex_Next(2) g2] Seek_loop_False[OF ex_Next(3)])
qed

text \<open>
  Claim C8. For every iterator as \<^verbatim>\<open>newIterator\<close> sets it up for a series of the cursor, wherever
  its cursor is, and every \<open>t\<close>: if \<open>i\<close> is the first position that holds a present sample with
  a timestamp of at least \<open>t\<close>, \<^verbatim>\<open>Seek(t)\<close> returns true with the cursor on \<open>i\<close>, where \<^verbatim>\<open>At()\<close>
  returns that sample; if there is no such position, \<^verbatim>\<open>Seek(t)\<close> returns false with the cursor
  at the sample count, where \<^verbatim>\<open>At()\<close> returns zeros and \<^verbatim>\<open>Next()\<close> returns false. The result does
  not depend on where the cursor was (\<^verbatim>\<open>Seek\<close> starts from before the first sample), so seeking
  backwards works. On the spec's data \<^verbatim>\<open>Seek(2)\<close> lands on \<open>(2, 3.0)\<close> and \<^verbatim>\<open>Seek(10)\<close> returns
  false and leaves the iterator exhausted.
\<close>

theorem pgxSeriesIterator_Seek_first_at_or_after:
  assumes "wellFormed p"
  shows "(i < length (it_times p) \<and> presentSample p i \<and> t \<le> fst (it_times p ! i) \<and>
            (\<forall>j. j < i \<longrightarrow> \<not> (presentSample p j \<and> t \<le> fst (it_times p ! j))) \<longrightarrow>
          pgxSeriesIterator_Seek p t = Some (Inr (True, p\<lparr>cur := int i\<rparr>)) \<and>
          pgxSeriesIterator_At (p\<lparr>cur := int i\<rparr>) =
            Inr (fst (it_times p ! i), Float (Elements (it_values p) ! i)))
       \<and> ((\<forall>j. j < length (it_times p) \<longrightarrow> \<not> (presentSample p j \<and> t \<le> fst (it_times p ! j))) \<longrightarrow>
          pgxSeriesIterator_Seek p t = Some (Inr (False, p\<lparr>cur := totalSamples p\<rparr>)) \<and>
          pgxSeriesIterator_At (p\<lparr>cur := totalSamples p\<rparr>) = Inr (0, 0) \<and>
          pgxSeriesIterator_Next (p\<lparr>cur := totalSamples p\<rparr>) =
            Some (Inr (False, p\<lparr>cur := totalSamples p + 1\<rparr>)))
       \<and> pgxSeriesIterator_Seek (p\<lparr>cur := c\<rparr>) t = pgxSeriesIterator_Seek p t
       \<and> (pgxSeriesIterator_Seek (ex_iterator c) 2 = Some (Inr (True, ex_iterator 2)) \<and>
          pgxSeriesIterator_At (ex_iterator 2) = Inr (2, 3) \<and>
          pgxSeriesIterator_Seek (ex_iterator c) 10 = Some (Inr (False, ex_iterator 4)) \<and>
          pgxSeriesIterator_Next (ex_iterator 4) = Some (Inr (False, ex_iterator 5)))"
proof -
  let ?q = "p\<lparr>cur := - 1\<rparr>"
  have wq: "wellFormed ?q" using assms by simp
  have tot: "cur ?q + 1 \<le> totalSamples ?q" using assms by (simp add: wellFormed_def)
  have found: "pgxSeriesIterator_Seek p t = Some (Inr (True, p\<lparr>cur := int i\<rparr>))"
    if "i < length (it_times p)" "presentSample p i" "t \<le> fst (it_times p ! i)"
       "\<forall>j. j < i \<longrightarrow> \<not> (presentSample p j \<and> t \<le> fst (it_times p ! j))"
    using Seek_loop_found[of ?q i t] wq that by (simp add: pgxSeriesIterator_Seek_def)
  have none: "pgxSeriesIterator_Seek p t = Some (Inr (False, p\<lparr>cur := totalSamples p\<rparr>))"
    if "\<forall>j. j < length (it_times p) \<longrightarrow> \<not> (presentSample p j \<and> t \<le> fst (it_times p ! j))"
    using Seek_loop_exhausted[of ?q t] wq tot that by (simp add: pgxSeriesIterator_Seek_def)
  have atend: "pgxSeriesIterator_At (p\<lparr>cur := totalSamples p\<rparr>) = Inr (0, 0)"
    by (rule At_out_of_range) simp
  have nxend: "pgxSeriesIterator_Next (p\<lparr>cur := totalSamples p\<rparr>) =
            Some (Inr (False, p\<lparr>cur := totalSamples p + 1\<rparr>))"
    using Next_at_end[of "p\<lparr>cur := totalSamples p\<rparr>"] by simp
  have restart: "pgxSeriesIterator_Seek (p\<lparr>cur := c\<rparr>) t = pgxSeriesIterator_Seek p t"
    by (simp add: pgxSeriesIterator_Seek_def)
  from found none atend nxend restart At_in_range[OF assms, of i] show ?thesis
    by (simp add: ex_Seek ex_At ex_Next)
qed

theorem pgxSeriesIterator_Seek_first_at_or_after_witness:
  "wellFormed (ex_iterator 3)
   \<and> pgxSeriesIterator_Seek (ex_iterator 3) 1 = Some (Inr (True, (ex_iterator 3)\<lparr>cur := int 2\<rparr>))
   \<and> pgxSeriesIterator_At ((ex_iterator 3)\<lparr>cur := int 2\<rparr>) = Inr (2, 3)
   \<and> pgxSeriesIterator_Seek (ex_iterator 3) 3 = Some (Inr (False, (ex_iterator 3)\<lparr>cur := 4\<rparr>))"
proof -
  have w: "wellFormed (ex_iterator 3)"
    by (simp add: wellFormed_def ex_iterator_def ex_times_def ex_values_def)
  have a: "2 < length (it_times (ex_iterator 3)) \<and> presentSample (ex_iterator 3) 2 \<and>
      1 \<le> fst (it_times (ex_iterator 3) ! 2) \<and>
      (\<forall>j. j < 2 \<longrightarrow> \<not> (presentSample (ex_iterator 3) j \<and> 1 \<le> fst (it_times (ex_iterator 3) ! j)))"
    by (auto simp: presentSample_def ex_iterator_def ex_times_def ex_values_def less_Suc_eq numeral_2_eq_2)
  have b: "\<forall>j. j < length (it_times (ex_iterator 3)) \<longrightarrow>
      \<not> (presentSample (ex_iterator 3) j \<and> 3 \<le> fst (it_times (ex_iterator 3) ! j))"
    by (auto simp: presentSample_def ex_iterator_def ex_times_def ex_values_def less_Suc_eq)
  from pgxSeriesIterator_Seek_first_at_or_after[OF w, of 2 1] a
  have 1: "pgxSeriesIterator_Seek (ex_iterator 3) 1 = Some (Inr (True, (ex_iterator 3)\<lparr>cur := int 2\<rparr>))"
    and 2: "pgxSeriesIterator_At ((ex_iterator 3)\<lparr>cur := int 2\<rparr>) =
      Inr (fst (it_times (ex_iterator 3) ! 2), Float (Elements (it_values (ex_iterator 3)) ! 2))"
    by blast+
  from pgxSeriesIterator_Seek_first_at_or_after[OF w, of _ 3] b
  have 3: "pgxSeriesIterator_Seek (ex_iterator 3) 3 =
      Some (Inr (False, (ex_iterator 3)\<lparr>cur := totalSamples (ex_iterator 3)\<rparr>))"
    by blast
  from 2 have e2: "pgxSeriesIterator_At ((ex_iterator 3)\<lparr>cur := int 2\<rparr>) = Inr (2, 3)"
    by (simp add: ex_iterator_def ex_times_def ex_values_def)
  from 3 have e3: "pgxSeriesIterator_Seek (ex_iterator 3) 3 = Some (Inr (False, (ex_iterator 3)\<lparr>cur := 4\<rparr>))"
    by (simp add: ex_iterator_def)
  from w 1 e2 e3 show ?thesis by blast
qed

section \<open>Termination\<close>

text \<open>
  Claim C10. For every iterator state whatsoever (any cursor, any sample count, columns of
  any lengths) \<^verbatim>\<open>Next()\<close> returns: its result is never \<open>None\<close>, the value of a loop that runs
  forever. When it returns normally the cursor has grown, and by no more than up to the
  sample count (or by one). \<^verbatim>\<open>Seek(t)\<close> returns as well, for every \<open>t\<close>. Every round of the loop
  of \<^verbatim>\<open>Next\<close> adds one to the cursor and nothing else changes it after \<^verbatim>\<open>Seek\<close> has set it to
  \<open>-1\<close>, so the cursor \<^verbatim>\<open>Seek\<close> leaves, less \<open>-1\<close>, is the number of advance steps: at most the
  sample count plus one.
\<close>

theorem pgxSeriesIterator_Next_Seek_terminate:
  "(\<exists>r. pgxSeriesIterator_Next p = Some r)
   \<and> (\<forall>b p'. pgxSeriesIterator_Next p = Some (Inr (b, p')) \<longrightarrow>
         cur p < cur p' \<and> cur p' \<le> max (cur p + 1) (totalSamples p))
   \<and> (\<exists>r. pgxSeriesIterator_Seek p t = Some r)
   \<and> (\<forall>b p'. pgxSeriesIterator_Seek p t = Some (Inr (b, p')) \<longrightarrow>
         0 \<le> cur p' \<and> cur p' - (- 1) \<le> max 0 (totalSamples p) + 1)"
proof -
  have 1: "\<exists>r. pgxSeriesIterator_Next p = Some r" by (rule Next_terminates)
  have 2: "\<forall>b p'. pgxSeriesIterator_Next p = Some (Inr (b, p')) \<longrightarrow>
         cur p < cur p' \<and> cur p' \<le> max (cur p + 1) (totalSamples p)"
    using Next_result[of p] by blast
  from Seek_loop_terminates[of t "p\<lparr>cur := - 1\<rparr>"]
  obtain r where r: "Seek_loop t (p\<lparr>cur := - 1\<rparr>) = Some r"
    "\<forall>b p'. r = Inr (b, p') \<longrightarrow> - 1 < cur p' \<and> cur p' \<le> max 0 (totalSamples p)"
    by auto
  then have 3: "\<exists>r. pgxSeriesIterator_Seek p t = Some r"
    and 4: "\<forall>b p'. pgxSeriesIterator_Seek p t = Some (Inr (b, p')) \<longrightarrow>
         0 \<le> cur p' \<and> cur p' - (- 1) \<le> max 0 (totalSamples p) + 1"
    by (auto simp: pgxSeriesIterator_Seek_def)
  from 1 2 3 4 show ?thesis by blast
qed

theorem pgxSeriesIterator_Next_Seek_terminate_witness:
  "pgxSeriesIterator_Seek (ex_iterator 1) 10 = Some (Inr (False, ex_iterator 4))
   \<and> 0 \<le> cur (ex_iterator 4)
   \<and> cur (ex_iterator 4) - (- 1) \<le> max 0 (totalSamples (ex_iterator 1)) + 1
   \<and> pgxSeriesIterator_Next (ex_iterator 2) = Some (Inr (False, ex_iterator 4))
   \<and> cur (ex_iterator 2) < cur (ex_iterator 4)
   \<and> cur (ex_iterator 4) \<le> max (cur (ex_iterator 2) + 1) (totalSamples (ex_iterator 2))"
  using pgxSeriesIterator_Next_Seek_terminate[of "ex_iterator 1" 10]
    pgxSeriesIterator_Next_Seek_terminate[of "ex_iterator 2" 10] ex_Seek(2)[of 1] ex_Next(3)
  by blast

end
